theory Spec2Isabelle
  imports Main "HOL-Library.AList"
begin

section \<open>Go values as package reflect presents them\<close>

text \<open>
  The engine of \<^verbatim>\<open>scopedconfig/newscoped_config.go\<close> never sees a static type: it
  walks \<^verbatim>\<open>reflect.Value\<close>s.  A value is therefore modelled together with its kind.
  A struct carries, for each field, what \<^verbatim>\<open>reflect.StructField\<close> tells the engine
  (\<^verbatim>\<open>Name\<close>, \<^verbatim>\<open>PkgPath\<close>, \<^verbatim>\<open>Anonymous\<close>) and the field's value.  A nil pointer keeps
  the zero value of its element type, because the field search of reflect goes through
  the type of an embedded pointer even when the pointer is nil.  The universe has the
  predeclared types bool, int and string, \<^verbatim>\<open>time.Time\<close> (one integer, 0 for the zero
  Time), pointers, slices, maps with scalar keys, interfaces, funcs, chans and structs.
\<close>

record StructField =
  Name :: string
  PkgPath :: string
  Anonymous :: bool

datatype gkey = KeyString string | KeyInt int | KeyBool bool

datatype gval =
    VBool bool
  | VInt int
  | VString string
  | VTime int
  | VNilPtr gval
  | VPtr gval
  | VNilSlice
  | VSlice "gval list"
  | VNilMap
  | VMap "(gkey \<times> gval) list"
  | VNilInterface
  | VInterface gval
  | VNilFunc
  | VFunc nat
  | VNilChan
  | VChan nat
  | VStruct "(StructField \<times> gval) list"

datatype kind =
  RBool | RInt | RString | RStruct | RPtr | RSlice | RMap | RInterface | RFunc | RChan

fun Kind :: "gval \<Rightarrow> kind" where
  "Kind (VBool _) = RBool"
| "Kind (VInt _) = RInt"
| "Kind (VString _) = RString"
| "Kind (VTime _) = RStruct"
| "Kind (VNilPtr _) = RPtr"
| "Kind (VPtr _) = RPtr"
| "Kind VNilSlice = RSlice"
| "Kind (VSlice _) = RSlice"
| "Kind VNilMap = RMap"
| "Kind (VMap _) = RMap"
| "Kind VNilInterface = RInterface"
| "Kind (VInterface _) = RInterface"
| "Kind VNilFunc = RFunc"
| "Kind (VFunc _) = RFunc"
| "Kind VNilChan = RChan"
| "Kind (VChan _) = RChan"
| "Kind (VStruct _) = RStruct"

text \<open>\<^verbatim>\<open>Value.IsNil\<close>, on the kinds for which \<^verbatim>\<open>isEmpty\<close> calls it.\<close>

fun IsNil :: "gval \<Rightarrow> bool" where
  "IsNil (VNilPtr _) = True"
| "IsNil VNilSlice = True"
| "IsNil VNilMap = True"
| "IsNil VNilInterface = True"
| "IsNil VNilFunc = True"
| "IsNil VNilChan = True"
| "IsNil _ = False"

text \<open>\<^verbatim>\<open>reflect.Zero(v.Type())\<close>: the zero value of the type of \<open>v\<close>.\<close>

fun Zero :: "gval \<Rightarrow> gval" where
  "Zero (VBool _) = VBool False"
| "Zero (VInt _) = VInt 0"
| "Zero (VString _) = VString []"
| "Zero (VTime _) = VTime 0"
| "Zero (VNilPtr z) = VNilPtr z"
| "Zero (VPtr p) = VNilPtr (Zero p)"
| "Zero VNilSlice = VNilSlice"
| "Zero (VSlice _) = VNilSlice"
| "Zero VNilMap = VNilMap"
| "Zero (VMap _) = VNilMap"
| "Zero VNilInterface = VNilInterface"
| "Zero (VInterface _) = VNilInterface"
| "Zero VNilFunc = VNilFunc"
| "Zero (VFunc _) = VNilFunc"
| "Zero VNilChan = VNilChan"
| "Zero (VChan _) = VNilChan"
| "Zero (VStruct fs) = VStruct (map (\<lambda>(f, v). (f, Zero v)) fs)"

text \<open>
  A call of reflect either returns or panics.  The panics the engine can meet:
  a value reached through an unexported field is read-only (\<^verbatim>\<open>Interface\<close>, \<^verbatim>\<open>Set\<close> and
  \<^verbatim>\<open>SetMapIndex\<close> refuse it), \<^verbatim>\<open>Set\<close> refuses a value of another type, \<^verbatim>\<open>Field\<close> and
  \<^verbatim>\<open>MapKeys\<close> refuse a value of the wrong kind or an index out of range, and
  \<^verbatim>\<open>FieldByIndex\<close> refuses to go through a nil embedded pointer.
\<close>

datatype panic_value =
  UnexportedField | NotAssignable | WrongKind | IndexOutOfRange | NilEmbeddedPointer

datatype 'a go = Panicked panic_value | Returned 'a

section \<open>The engine's configuration and the emptiness policy\<close>

record NScopedConfig =
  coll :: string
  AllowedPools :: "string list"
  AllowEmpty :: bool
  ShallowMerge :: bool

text \<open>
  \<^verbatim>\<open>isEmpty\<close> (lines 355-375).  The flag \<open>ro\<close> is reflect's read-only flag of
  \<^verbatim>\<open>valValue\<close>; \<^verbatim>\<open>Interface()\<close> panics on a read-only value, and \<^verbatim>\<open>reflect.DeepEqual\<close>
  against a zero value is equality of the modelled values.
\<close>

definition isEmpty :: "NScopedConfig \<Rightarrow> bool \<Rightarrow> gval \<Rightarrow> bool go" where
  "isEmpty n ro valValue =
     (if Kind valValue \<in> {RChan, RFunc, RMap, RPtr, RInterface, RSlice} \<and> IsNil valValue
      then Returned True
      else if AllowEmpty n then Returned False
      else if valValue = VSlice [] then Returned True
      else if ro then Panicked UnexportedField
      else (case valValue of
              VPtr p \<Rightarrow> Returned (p = Zero p)
            | _ \<Rightarrow> Returned (valValue = Zero valValue)))"


section \<open>Field names and the search for the companion flag\<close>

text \<open>
  \<^verbatim>\<open>strings.ToLower\<close> and \<^verbatim>\<open>strings.HasSuffix\<close> on field names.  Names are byte strings;
  the letters A to Z are the ones Go identifiers of this engine's records are cased on.
\<close>

definition lower_char :: "char \<Rightarrow> char" where
  "lower_char c =
     (case map_of (zip ''ABCDEFGHIJKLMNOPQRSTUVWXYZ'' ''abcdefghijklmnopqrstuvwxyz'') c of
        Some l \<Rightarrow> l
      | None \<Rightarrow> c)"

definition ToLower :: "string \<Rightarrow> string" where
  "ToLower s = map lower_char s"

definition HasSuffix :: "string \<Rightarrow> string \<Rightarrow> bool" where
  "HasSuffix s suffix = (length suffix \<le> length s \<and> drop (length s - length suffix) s = suffix)"

type_synonym fields = "(StructField \<times> gval) list"

text \<open>
  \<^verbatim>\<open>Type.FieldByNameFunc\<close> searches breadth first, one depth of embedding at a time:
  a single match at the first depth that has any is the answer, several matches at that
  depth cancel each other.  An embedded field of type \<open>T\<close> or \<open>*T\<close> with \<open>T\<close> a struct
  opens the next depth.  The answer is the index path, the field and (standing for its
  type) the field's value in the struct searched.
\<close>

fun embedded_struct :: "gval \<Rightarrow> fields option" where
  "embedded_struct (VStruct fs) = Some fs"
| "embedded_struct (VPtr (VStruct fs)) = Some fs"
| "embedded_struct (VNilPtr (VStruct fs)) = Some fs"
| "embedded_struct _ = None"

definition scan_matches ::
  "(string \<Rightarrow> bool) \<Rightarrow> nat list \<times> fields \<Rightarrow> (nat list \<times> StructField \<times> gval) list" where
  "scan_matches match scan =
     concat (map (\<lambda>(i, f, v). if match (Name f) then [(fst scan @ [i], f, v)] else [])
                 (enumerate 0 (snd scan)))"

definition scan_embedded :: "nat list \<times> fields \<Rightarrow> (nat list \<times> fields) list" where
  "scan_embedded scan =
     concat (map (\<lambda>(i, f, v). if Anonymous f
                    then (case embedded_struct v of Some fs \<Rightarrow> [(fst scan @ [i], fs)] | None \<Rightarrow> [])
                    else [])
                 (enumerate 0 (snd scan)))"

fun weight :: "gval \<Rightarrow> nat" where
  "weight (VStruct fs) = Suc (sum_list (map (\<lambda>(f, v). weight v) fs))"
| "weight (VPtr v) = weight v"
| "weight (VNilPtr v) = weight v"
| "weight _ = 0"

definition level_weight :: "(nat list \<times> fields) list \<Rightarrow> nat" where
  "level_weight level =
     sum_list (map (\<lambda>scan. Suc (sum_list (map (\<lambda>(f, v). weight v) (snd scan)))) level)"

lemma embedded_struct_weight:
  "embedded_struct v = Some fs \<Longrightarrow> weight v = Suc (sum_list (map (\<lambda>(f, v). weight v) fs))"
  by (induction v rule: embedded_struct.induct) auto

lemma scan_embedded_weight_aux:
  "level_weight (concat (map (\<lambda>(i, f, v). if Anonymous f
                    then (case embedded_struct v of Some fs \<Rightarrow> [(ix @ [i], fs)] | None \<Rightarrow> [])
                    else []) (enumerate k fs)))
   \<le> sum_list (map (\<lambda>(f, v). weight v) fs)"
proof (induction fs arbitrary: k)
  case Nil
  then show ?case by (simp add: level_weight_def)
next
  case (Cons a fs)
  obtain f v where a: "a = (f, v)" by (cases a)
  have "level_weight (concat (map (\<lambda>(i, f, v). if Anonymous f
                    then (case embedded_struct v of Some fs \<Rightarrow> [(ix @ [i], fs)] | None \<Rightarrow> [])
                    else []) (enumerate (Suc k) fs))) \<le> sum_list (map (\<lambda>(f, v). weight v) fs)"
    using Cons.IH by blast
  then show ?case
    by (auto simp: a level_weight_def dest: embedded_struct_weight split: option.splits)
qed

lemma scan_embedded_weight:
  "level_weight (scan_embedded scan) \<le> sum_list (map (\<lambda>(f, v). weight v) (snd scan))"
  unfolding scan_embedded_def by (rule scan_embedded_weight_aux)

lemma level_weight_append: "level_weight (xs @ ys) = level_weight xs + level_weight ys"
  by (simp add: level_weight_def)

lemma next_level_weight:
  "level \<noteq> [] \<Longrightarrow> level_weight (concat (map scan_embedded level)) < level_weight level"
proof (induction level)
  case Nil
  then show ?case by simp
next
  case (Cons scan level)
  have le: "level_weight (concat (map scan_embedded level)) \<le> level_weight level"
  proof (cases "level = []")
    case True
    then show ?thesis by simp
  next
    case False
    then show ?thesis using Cons.IH by simp
  qed
  have "level_weight (scan_embedded scan) < level_weight [scan]"
    using scan_embedded_weight [of scan] by (simp add: level_weight_def)
  then show ?case
    using le level_weight_append [of "[scan]" level]
    by (simp add: level_weight_append)
qed

function search_levels ::
  "(string \<Rightarrow> bool) \<Rightarrow> (nat list \<times> fields) list \<Rightarrow> (nat list \<times> StructField \<times> gval) option" where
  "search_levels match level =
     (if level = [] then None
      else (case concat (map (scan_matches match) level) of
              [] \<Rightarrow> search_levels match (concat (map scan_embedded level))
            | [found] \<Rightarrow> Some found
            | _ \<Rightarrow> None))"
  by pat_completeness auto
termination
  by (relation "measure (\<lambda>(match, level). level_weight level)") (auto simp: next_level_weight)

declare search_levels.simps [simp del]

definition FieldByNameFunc ::
  "fields \<Rightarrow> (string \<Rightarrow> bool) \<Rightarrow> (nat list \<times> StructField \<times> gval) option" where
  "FieldByNameFunc t match = search_levels match [([], t)]"

section \<open>The reflect operations the merge uses\<close>

text \<open>
  \<^verbatim>\<open>v.Set(x)\<close>, for \<open>v\<close> and \<open>x\<close> reached by the same path (so with the same read-only
  flag).  Two values have the same type when their zero values agree; an interface
  destination takes any value.
\<close>

definition SetValue :: "bool \<Rightarrow> gval \<Rightarrow> gval \<Rightarrow> gval go" where
  "SetValue ro v x =
     (if ro then Panicked UnexportedField
      else if Kind v = RInterface \<and> Kind x \<noteq> RInterface then Returned (VInterface x)
      else if Zero x = Zero v then Returned x
      else Panicked NotAssignable)"

fun Field :: "gval \<Rightarrow> nat \<Rightarrow> gval go" where
  "Field (VStruct fs) i =
     (if i < length fs then Returned (snd (fs ! i)) else Panicked IndexOutOfRange)"
| "Field _ i = Panicked WrongKind"

definition setFieldValue :: "fields \<Rightarrow> nat \<Rightarrow> gval \<Rightarrow> fields" where
  "setFieldValue bs i v = bs[i := (fst (bs ! i), v)]"

text \<open>
  A map is an association list read through \<open>map_of\<close>.  \<^verbatim>\<open>MapKeys\<close> with \<^verbatim>\<open>MapIndex\<close>
  gives each key once, with its value; Go leaves the order of the keys open, the model
  takes the order of the list.  \<^verbatim>\<open>SetMapIndex\<close> with the zero \<^verbatim>\<open>reflect.Value\<close> deletes
  the key, also from a nil map.
\<close>

fun MapIndex :: "gval \<Rightarrow> gkey \<Rightarrow> gval option" where
  "MapIndex (VMap m) k = map_of m k"
| "MapIndex _ k = None"

fun MapEntries :: "gval \<Rightarrow> (gkey \<times> gval) list go" where
  "MapEntries VNilMap = Returned []"
| "MapEntries (VMap m) = Returned (AList.clearjunk m)"
| "MapEntries _ = Panicked WrongKind"

fun SetMapIndex :: "gval \<Rightarrow> gkey \<Rightarrow> gval option \<Rightarrow> gval" where
  "SetMapIndex (VMap m) k (Some v) = VMap (AList.update k v m)"
| "SetMapIndex (VMap m) k None = VMap (AList.delete k m)"
| "SetMapIndex base k v = base"

text \<open>
  \<^verbatim>\<open>base.FieldByIndex(index).Set(x)\<close>: the walk goes through embedded structs and
  non-nil embedded pointers; the field reached must be exported to be set.
\<close>

fun FieldByIndexSet :: "fields \<Rightarrow> nat list \<Rightarrow> gval \<Rightarrow> fields go" where
  "FieldByIndexSet fs [] x = Panicked IndexOutOfRange"
| "FieldByIndexSet fs [i] x =
     (if i < length fs
      then (if PkgPath (fst (fs ! i)) \<noteq> [] then Panicked UnexportedField
            else Returned (setFieldValue fs i x))
      else Panicked IndexOutOfRange)"
| "FieldByIndexSet fs (i # j # index) x =
     (if i < length fs
      then (case snd (fs ! i) of
              VStruct inner \<Rightarrow>
                (case FieldByIndexSet inner (j # index) x of
                   Panicked p \<Rightarrow> Panicked p
                 | Returned inner' \<Rightarrow> Returned (setFieldValue fs i (VStruct inner')))
            | VPtr (VStruct inner) \<Rightarrow>
                (case FieldByIndexSet inner (j # index) x of
                   Panicked p \<Rightarrow> Panicked p
                 | Returned inner' \<Rightarrow> Returned (setFieldValue fs i (VPtr (VStruct inner'))))
            | VNilPtr _ \<Rightarrow> Panicked NilEmbeddedPointer
            | _ \<Rightarrow> Panicked WrongKind)
      else Panicked IndexOutOfRange)"

section \<open>The merge\<close>

text \<open>
  \<^verbatim>\<open>mergeIntoInherited\<close> (lines 285-353) changes \<^verbatim>\<open>base\<close> in place and returns
  \<^verbatim>\<open>(merged, err)\<close>; the model returns the new \<^verbatim>\<open>base\<close> with them.  A panic that the
  function does not recover ends the call without a result.  The error of line 344 is
  \<open>SetFieldError\<close> of the recovered panic.
\<close>

datatype merge_error = SetFieldError panic_value

type_synonym merge_result = "(gval \<times> bool \<times> merge_error option) go"

text \<open>Line 297: the field is itself a marker.\<close>

definition isInheritedName :: "StructField \<Rightarrow> bool" where
  "isInheritedName fieldType = HasSuffix (ToLower (Name fieldType)) ''inherited''"

text \<open>Lines 301-303: the companion of the field, looked up in the type of \<^verbatim>\<open>base\<close>.\<close>

definition inheritedField :: "fields \<Rightarrow> StructField \<Rightarrow> (nat list \<times> StructField \<times> gval) option" where
  "inheritedField t fieldType =
     FieldByNameFunc t (\<lambda>name. ToLower name = ToLower (Name fieldType @ ''inherited''))"

text \<open>Lines 321-323.\<close>

definition setInheritedFlag :: "bool \<Rightarrow> fields \<Rightarrow> StructField \<Rightarrow> fields \<Rightarrow> bool \<Rightarrow> fields go" where
  "setInheritedFlag setInherited t fieldType bs fieldMerged =
     (case inheritedField t fieldType of
        None \<Rightarrow> Returned bs
      | Some (index, f, v) \<Rightarrow>
          if setInherited \<and> Kind v = RBool
          then FieldByIndexSet bs index (VBool (\<not> fieldMerged))
          else Returned bs)"

text \<open>Lines 288-293: a \<^verbatim>\<open>time.Time\<close> is taken whole; \<^verbatim>\<open>merged\<close> stays false.\<close>

definition mergeTime :: "NScopedConfig \<Rightarrow> bool \<Rightarrow> gval \<Rightarrow> gval \<Rightarrow> merge_result" where
  "mergeTime n ro base pool =
     (if ro then Panicked UnexportedField
      else (case isEmpty n ro pool of
              Panicked p \<Rightarrow> Panicked p
            | Returned emp \<Rightarrow>
                if \<not> emp
                then (case SetValue ro base pool of
                        Panicked p \<Rightarrow> Panicked p
                      | Returned base' \<Rightarrow> Returned (base', False, None))
                else Returned (base, False, None)))"

text \<open>Lines 328-340: the loop over the keys of \<^verbatim>\<open>pool\<close>.\<close>

fun mergeMapKeys ::
  "NScopedConfig \<Rightarrow> bool \<Rightarrow> (gkey \<times> gval) list \<Rightarrow> gval \<Rightarrow> bool \<Rightarrow> (gval \<times> bool) go" where
  "mergeMapKeys n ro [] base merged = Returned (base, merged)"
| "mergeMapKeys n ro ((k, poolVal) # rest) base merged =
     (case isEmpty n ro poolVal of
        Panicked p \<Rightarrow> Panicked p
      | Returned emp \<Rightarrow>
          if ro then Panicked UnexportedField
          else if \<not> emp
          then mergeMapKeys n ro rest
                 (SetMapIndex (if IsNil base then VMap [] else base) k (Some poolVal)) True
          else mergeMapKeys n ro rest (SetMapIndex base k None) merged)"

definition mergeMap :: "NScopedConfig \<Rightarrow> bool \<Rightarrow> gval \<Rightarrow> gval \<Rightarrow> merge_result" where
  "mergeMap n ro base pool =
     (case MapEntries pool of
        Panicked p \<Rightarrow> Panicked p
      | Returned entries \<Rightarrow>
          (case mergeMapKeys n ro entries base False of
             Panicked p \<Rightarrow> Panicked p
           | Returned (base', merged) \<Rightarrow> Returned (base', merged, None)))"

text \<open>Lines 341-351: every other kind; the deferred \<^verbatim>\<open>recover\<close> turns a panic into the error.\<close>

definition mergeDefault :: "NScopedConfig \<Rightarrow> bool \<Rightarrow> gval \<Rightarrow> gval \<Rightarrow> merge_result" where
  "mergeDefault n ro base pool =
     (case isEmpty n ro pool of
        Panicked p \<Rightarrow> Returned (base, False, Some (SetFieldError p))
      | Returned emp \<Rightarrow>
          if \<not> emp
          then (case SetValue ro base pool of
                  Panicked p \<Rightarrow> Returned (base, True, Some (SetFieldError p))
                | Returned base' \<Rightarrow> Returned (base', True, None))
          else Returned (base, False, None))"

lemma field_size_aux:
  "x \<in> set fs \<Longrightarrow> size (snd x) < Suc (size_list (size_prod (\<lambda>_. 0) size) fs)"
  by (induction fs) auto

lemma Field_size: "Field pool i = Returned v \<Longrightarrow> size v < size pool"
proof (cases pool)
  case (VStruct fs)
  assume "Field pool i = Returned v"
  with VStruct have i: "i < length fs" and v: "v = snd (fs ! i)"
    by (auto split: if_splits)
  have "fs ! i \<in> set fs" using i by simp
  then have "size (snd (fs ! i)) < Suc (size_list (size_prod (\<lambda>_. 0) size) fs)"
    by (rule field_size_aux)
  then show ?thesis using VStruct v by simp
qed auto

text \<open>
  The function itself, the loop of lines 295-327 (\<open>mergeFields\<close>, at index \<open>i\<close>, with
  \<open>t\<close> the fields of \<^verbatim>\<open>base.Type()\<close>, \<open>bs\<close> the fields of \<^verbatim>\<open>base\<close> as merged so far and
  \<open>merged\<close> the named result so far) and the body of the loop (\<open>mergeField\<close>, which
  returns the fields, \<^verbatim>\<open>fieldMerged\<close> and \<^verbatim>\<open>err\<close>).  A field read through an unexported
  embedded field is read-only (reflect's \<^verbatim>\<open>flagEmbedRO\<close>); unexported fields that are
  not embedded never reach the recursion.  The recursion follows \<^verbatim>\<open>pool\<close>, which the
  merge never changes.
\<close>

function mergeIntoInherited ::
    "NScopedConfig \<Rightarrow> bool \<Rightarrow> gval \<Rightarrow> gval \<Rightarrow> bool \<Rightarrow> merge_result"
  and mergeFields ::
    "NScopedConfig \<Rightarrow> fields \<Rightarrow> nat \<Rightarrow> fields \<Rightarrow> gval \<Rightarrow> bool \<Rightarrow> bool \<Rightarrow> merge_result"
  and mergeField ::
    "NScopedConfig \<Rightarrow> fields \<Rightarrow> nat \<Rightarrow> fields \<Rightarrow> gval \<Rightarrow> bool
       \<Rightarrow> (fields \<times> bool \<times> merge_error option) go"
where
  "mergeIntoInherited n ro base pool setInherited =
     (case base of
        VTime t \<Rightarrow> mergeTime n ro base pool
      | VStruct fs \<Rightarrow>
          (if ro then Panicked UnexportedField
           else mergeFields n fs 0 fs pool setInherited False)
      | _ \<Rightarrow>
          (if Kind base = RMap then mergeMap n ro base pool
           else mergeDefault n ro base pool))"
| "mergeFields n t i bs pool setInherited merged =
     (if i < length t
      then (case mergeField n t i bs pool setInherited of
              Panicked p \<Rightarrow> Panicked p
            | Returned (bs', fieldMerged, err) \<Rightarrow>
                (case err of
                   Some e \<Rightarrow> Returned (VStruct bs', merged, Some e)
                 | None \<Rightarrow> mergeFields n t (Suc i) bs' pool setInherited (merged \<or> fieldMerged)))
      else Returned (VStruct bs, merged, None))"
| "mergeField n t i bs pool setInherited =
     (if isInheritedName (fst (t ! i)) then Returned (bs, False, None)
      else if PkgPath (fst (t ! i)) \<noteq> [] \<and> \<not> Anonymous (fst (t ! i))
      then Returned (bs, False, None)
      else (case Field (VStruct bs) i of
              Panicked p \<Rightarrow> Panicked p
            | Returned f1Value \<Rightarrow>
               (case Field pool i of
                  Panicked p \<Rightarrow> Panicked p
                | Returned f2Value \<Rightarrow>
                    if ShallowMerge n
                    then (case isEmpty n (PkgPath (fst (t ! i)) \<noteq> []) f2Value of
                            Panicked p \<Rightarrow> Panicked p
                          | Returned emp \<Rightarrow>
                              if \<not> emp
                              then (case SetValue (PkgPath (fst (t ! i)) \<noteq> []) f1Value f2Value of
                                      Panicked p \<Rightarrow> Panicked p
                                    | Returned f1' \<Rightarrow> Returned (setFieldValue bs i f1', True, None))
                              else Returned (bs, False, None))
                    else (case mergeIntoInherited n (PkgPath (fst (t ! i)) \<noteq> [])
                                 f1Value f2Value setInherited of
                            Panicked p \<Rightarrow> Panicked p
                          | Returned (f1', fieldMerged, err) \<Rightarrow>
                              (case err of
                                 Some e \<Rightarrow> Returned (setFieldValue bs i f1', fieldMerged, Some e)
                               | None \<Rightarrow>
                                   (case setInheritedFlag setInherited t (fst (t ! i))
                                           (setFieldValue bs i f1') fieldMerged of
                                      Panicked p \<Rightarrow> Panicked p
                                    | Returned bs' \<Rightarrow> Returned (bs', fieldMerged, None)))))))"
  by pat_completeness auto
termination
  by (relation "measures
        [\<lambda>x. case x of Inl (n, ro, base, pool, si) \<Rightarrow> size pool
                       | Inr (Inl (n, t, i, bs, pool, si, m)) \<Rightarrow> size pool
                       | Inr (Inr (n, t, i, bs, pool, si)) \<Rightarrow> size pool,
         \<lambda>x. case x of Inl (n, ro, base, pool, si) \<Rightarrow>
                           Suc (Suc (case base of VStruct fs \<Rightarrow> length fs | _ \<Rightarrow> 0))
                       | Inr (Inl (n, t, i, bs, pool, si, m)) \<Rightarrow> Suc (length t - i)
                       | Inr (Inr (n, t, i, bs, pool, si)) \<Rightarrow> 0]")
     (auto dest: Field_size)

declare mergeIntoInherited.simps [simp del] mergeFields.simps [simp del] mergeField.simps [simp del]


section \<open>Records and engines for the examples\<close>

definition exported :: "string \<Rightarrow> StructField" where
  "exported nm = \<lparr>Name = nm, PkgPath = [], Anonymous = False\<rparr>"

definition engine :: "bool \<Rightarrow> bool \<Rightarrow> NScopedConfig" where
  "engine allowEmpty shallow =
     \<lparr>coll = ''scoped_test'', AllowedPools = [], AllowEmpty = allowEmpty, ShallowMerge = shallow\<rparr>"

lemmas eval_simps =
  mergeIntoInherited.simps mergeFields.simps mergeField.simps mergeTime_def mergeMap_def
  mergeDefault_def isEmpty_def SetValue_def setFieldValue_def exported_def engine_def
  isInheritedName_def inheritedField_def setInheritedFlag_def FieldByNameFunc_def
  search_levels.simps scan_matches_def scan_embedded_def HasSuffix_def ToLower_def lower_char_def

section \<open>The emptiness policy (claim C4)\<close>

text \<open>
  The policy in the words of the specification: a value is empty if it is a nil
  pointer, sequence, mapping, function, channel or dynamic value, or, only when
  \<^verbatim>\<open>AllowEmpty\<close> is false, if it equals the zero value of its type, one level of pointer
  indirection removed, an explicit zero-length sequence counting as empty too.
\<close>

fun deref_once :: "gval \<Rightarrow> gval" where
  "deref_once (VPtr p) = p"
| "deref_once v = v"

definition policy_empty :: "bool \<Rightarrow> gval \<Rightarrow> bool" where
  "policy_empty allowEmpty v =
     (IsNil v \<or> (\<not> allowEmpty \<and> (v = VSlice [] \<or> deref_once v = Zero (deref_once v))))"

lemma isEmpty_policy: "isEmpty n False v = Returned (policy_empty (AllowEmpty n) v)"
  by (cases v) (auto simp: isEmpty_def policy_empty_def)

text \<open>
  C4.  On every value (not read-only), \<^verbatim>\<open>isEmpty\<close> answers as the policy of the
  specification says.  Merging \<open>{X: 0}\<close> onto \<open>{X: 0}\<close> reports the field as overridden
  with \<^verbatim>\<open>AllowEmpty\<close> and as retained without it; onto \<open>{X: 5}\<close> the override's 0
  replaces the 5 with \<^verbatim>\<open>AllowEmpty\<close>, and the 5 stays without it.
\<close>

theorem emptiness_policy:
  "isEmpty n False v = Returned (policy_empty (AllowEmpty n) v)
   \<and> mergeIntoInherited (engine True False) False
       (VStruct [(exported ''X'', VInt 0)]) (VStruct [(exported ''X'', VInt 0)]) si
     = Returned (VStruct [(exported ''X'', VInt 0)], True, None)
   \<and> mergeIntoInherited (engine False False) False
       (VStruct [(exported ''X'', VInt 0)]) (VStruct [(exported ''X'', VInt 0)]) si
     = Returned (VStruct [(exported ''X'', VInt 0)], False, None)
   \<and> mergeIntoInherited (engine True False) False
       (VStruct [(exported ''X'', VInt 5)]) (VStruct [(exported ''X'', VInt 0)]) si
     = Returned (VStruct [(exported ''X'', VInt 0)], True, None)
   \<and> mergeIntoInherited (engine False False) False
       (VStruct [(exported ''X'', VInt 5)]) (VStruct [(exported ''X'', VInt 0)]) si
     = Returned (VStruct [(exported ''X'', VInt 5)], False, None)"
proof -
  have "isEmpty n False v = Returned (policy_empty (AllowEmpty n) v)"
    by (cases v) (auto simp: isEmpty_def policy_empty_def)
  then show ?thesis
    by (simp add: eval_simps)
qed

section \<open>Maps: insertion, tombstones and the overridden flag (claims C1 and C10)\<close>

lemma MapIndex_insert:
  "Kind base = RMap \<Longrightarrow>
   MapIndex (SetMapIndex (if IsNil base then VMap [] else base) k (Some v)) = (MapIndex base)(k \<mapsto> v)"
  by (cases base) (auto simp: update_conv')

lemma MapIndex_delete:
  "Kind base = RMap \<Longrightarrow> MapIndex (SetMapIndex base k None) = (MapIndex base)(k := None)"
  by (cases base) (auto simp: delete_conv')

lemma Kind_SetMapIndex: "Kind (SetMapIndex base k v) = Kind base"
  by (cases "(base, k, v)" rule: SetMapIndex.cases) auto

lemma Kind_insert: "Kind base = RMap \<Longrightarrow> Kind (SetMapIndex (if IsNil base then VMap [] else base) k v) = RMap"
  by (simp add: Kind_SetMapIndex)

lemma mergeMapKeys_result:
  assumes "distinct (map fst es)" and "Kind base = RMap"
  shows "\<exists>base'. mergeMapKeys n False es base merged
            = Returned (base', merged \<or> (\<exists>k v. map_of es k = Some v \<and> isEmpty n False v = Returned False))
          \<and> Kind base' = RMap
          \<and> (\<forall>k. MapIndex base' k =
                 (case map_of es k of
                    None \<Rightarrow> MapIndex base k
                  | Some v \<Rightarrow> if isEmpty n False v = Returned True then None else Some v))"
  using assms
proof (induction es arbitrary: base merged)
  case Nil
  then show ?case by simp
next
  case (Cons e es)
  obtain k v where e: "e = (k, v)" by (cases e)
  from Cons.prems have dist: "distinct (map fst es)" and fresh: "map_of es k = None"
    by (auto simp: e map_of_eq_None_iff)
  show ?case
  proof (cases "policy_empty (AllowEmpty n) v")
    case True
    let ?b = "SetMapIndex base k None"
    have kb: "Kind ?b = RMap" using Cons.prems by (simp add: Kind_SetMapIndex)
    from Cons.IH [OF dist kb, of merged] obtain base' where
      r: "mergeMapKeys n False es ?b merged
            = Returned (base', merged \<or> (\<exists>k v. map_of es k = Some v \<and> isEmpty n False v = Returned False))"
      and kr: "Kind base' = RMap"
      and ix: "\<forall>k. MapIndex base' k =
                 (case map_of es k of
                    None \<Rightarrow> MapIndex ?b k
                  | Some v \<Rightarrow> if isEmpty n False v = Returned True then None else Some v)"
      by blast
    have flag: "(\<exists>k' v'. map_of (e # es) k' = Some v' \<and> isEmpty n False v' = Returned False)
                = (\<exists>k v. map_of es k = Some v \<and> isEmpty n False v = Returned False)"
    proof -
      have "\<And>k' v'. map_of es k' = Some v' \<Longrightarrow> k' \<noteq> k"
        using fresh by auto
      then show ?thesis
        using True by (simp add: e isEmpty_policy) blast
    qed
    have "\<forall>k'. MapIndex base' k' =
                 (case map_of (e # es) k' of
                    None \<Rightarrow> MapIndex base k'
                  | Some v \<Rightarrow> if isEmpty n False v = Returned True then None else Some v)"
      using ix fresh True Cons.prems(2)
      by (auto simp: e isEmpty_policy MapIndex_delete split: option.splits)
    then show ?thesis
      using r kr True flag by (auto simp: e isEmpty_policy)
  next
    case False
    let ?b = "SetMapIndex (if IsNil base then VMap [] else base) k (Some v)"
    have kb: "Kind ?b = RMap" using Cons.prems by (simp add: Kind_SetMapIndex)
    from Cons.IH [OF dist kb, of True] obtain base' where
      r: "mergeMapKeys n False es ?b True
            = Returned (base', True \<or> (\<exists>k v. map_of es k = Some v \<and> isEmpty n False v = Returned False))"
      and kr: "Kind base' = RMap"
      and ix: "\<forall>k. MapIndex base' k =
                 (case map_of es k of
                    None \<Rightarrow> MapIndex ?b k
                  | Some v \<Rightarrow> if isEmpty n False v = Returned True then None else Some v)"
      by blast
    have flag: "\<exists>k' v'. map_of (e # es) k' = Some v' \<and> isEmpty n False v' = Returned False"
      using False by (auto simp: e isEmpty_policy)
    have "\<forall>k'. MapIndex base' k' =
                 (case map_of (e # es) k' of
                    None \<Rightarrow> MapIndex base k'
                  | Some v \<Rightarrow> if isEmpty n False v = Returned True then None else Some v)"
    proof -
      have mb: "MapIndex ?b = (MapIndex base)(k \<mapsto> v)"
        using Cons.prems(2) by (rule MapIndex_insert)
      show ?thesis
        using ix fresh False unfolding mb
        by (auto simp: e isEmpty_policy split: option.splits)
    qed
    then show ?thesis
      using r kr False flag by (auto simp: e isEmpty_policy)
  qed
qed

lemma MapEntries_map:
  "Kind pool = RMap \<Longrightarrow>
   \<exists>es. MapEntries pool = Returned es \<and> distinct (map fst es) \<and> map_of es = MapIndex pool"
  by (cases pool) (auto simp: distinct_clearjunk map_of_clearjunk)

lemma mergeMap_result:
  assumes "Kind base = RMap" and "Kind pool = RMap"
  shows "\<exists>base'. mergeMap n False base pool
            = Returned (base', (\<exists>k v. MapIndex pool k = Some v \<and> isEmpty n False v = Returned False), None)
          \<and> Kind base' = RMap
          \<and> (\<forall>k. MapIndex base' k =
                 (case MapIndex pool k of
                    None \<Rightarrow> MapIndex base k
                  | Some v \<Rightarrow> if isEmpty n False v = Returned True then None else Some v))"
proof -
  from MapEntries_map [OF assms(2)] obtain es where
    es: "MapEntries pool = Returned es" "distinct (map fst es)" "map_of es = MapIndex pool"
    by blast
  from mergeMapKeys_result [OF es(2) assms(1), of n False] es(3) obtain base' where
    "mergeMapKeys n False es base False
       = Returned (base', (\<exists>k v. MapIndex pool k = Some v \<and> isEmpty n False v = Returned False))"
    "Kind base' = RMap"
    "\<forall>k. MapIndex base' k =
                 (case MapIndex pool k of
                    None \<Rightarrow> MapIndex base k
                  | Some v \<Rightarrow> if isEmpty n False v = Returned True then None else Some v)"
    by auto
  then show ?thesis
    using es(1) by (simp add: mergeMap_def)
qed

lemma mergeIntoInherited_map:
  "Kind base = RMap \<Longrightarrow> mergeIntoInherited n ro base pool si = mergeMap n ro base pool"
  by (cases base) (auto simp: mergeIntoInherited.simps)

lemma mergeIntoInherited_struct:
  "mergeIntoInherited n False (VStruct fs) pool si = mergeFields n fs 0 fs pool si False"
  by (simp add: mergeIntoInherited.simps)

text \<open>
  C1.  The deep merge of a map-valued \<^verbatim>\<open>base\<close> with a map-valued \<^verbatim>\<open>pool\<close> returns
  without error, and the merged map, key by key, is: the base's entry where the override
  has no entry; the override's value where that value is not empty; no entry at all
  where the override's value is empty, whatever the base held there.  A record with
  such a field gets exactly this map as the merged field.
\<close>

theorem map_merge_tombstone:
  assumes "\<not> ShallowMerge n" and "Kind base = RMap" and "Kind pool = RMap"
  shows "\<exists>base' merged.
           mergeIntoInherited n False base pool setInherited = Returned (base', merged, None)
         \<and> Kind base' = RMap
         \<and> (\<forall>k. MapIndex base' k =
                 (case MapIndex pool k of
                    None \<Rightarrow> MapIndex base k
                  | Some v \<Rightarrow> if isEmpty n False v = Returned True then None else Some v))
         \<and> mergeIntoInherited n False
              (VStruct [(exported ''Env'', base)]) (VStruct [(exported ''Env'', pool)]) setInherited
            = Returned (VStruct [(exported ''Env'', base')], merged, None)"
proof -
  from mergeMap_result [OF assms(2,3), of n] obtain base' where
    r: "mergeMap n False base pool
            = Returned (base', (\<exists>k v. MapIndex pool k = Some v \<and> isEmpty n False v = Returned False), None)"
    and k: "Kind base' = RMap"
    and ix: "\<forall>k. MapIndex base' k =
                 (case MapIndex pool k of
                    None \<Rightarrow> MapIndex base k
                  | Some v \<Rightarrow> if isEmpty n False v = Returned True then None else Some v)"
    by blast
  let ?m = "\<exists>k v. MapIndex pool k = Some v \<and> isEmpty n False v = Returned False"
  have field: "mergeIntoInherited n False base pool setInherited = Returned (base', ?m, None)"
    using r by (simp add: mergeIntoInherited_map [OF assms(2)])
  have "mergeIntoInherited n False
              (VStruct [(exported ''Env'', base)]) (VStruct [(exported ''Env'', pool)]) setInherited
            = Returned (VStruct [(exported ''Env'', base')], ?m, None)"
    using assms(1) field
    by (simp add: mergeIntoInherited_struct mergeFields.simps mergeField.simps
          setFieldValue_def exported_def isInheritedName_def inheritedField_def
          setInheritedFlag_def FieldByNameFunc_def search_levels.simps scan_matches_def
          scan_embedded_def HasSuffix_def ToLower_def lower_char_def)
  with field k ix show ?thesis by blast
qed

theorem map_merge_tombstone_witness:
  "\<exists>base' merged.
     mergeIntoInherited (engine False False) False
        (VMap [(KeyString ''a'', VInt 1), (KeyString ''b'', VInt 2)])
        (VMap [(KeyString ''a'', VInt 0), (KeyString ''c'', VInt 3)]) True
       = Returned (base', merged, None)
     \<and> MapIndex base' (KeyString ''a'') = None
     \<and> MapIndex base' (KeyString ''b'') = Some (VInt 2)
     \<and> MapIndex base' (KeyString ''c'') = Some (VInt 3)
     \<and> mergeIntoInherited (engine False False) False
          (VStruct [(exported ''Env'', VMap [(KeyString ''a'', VInt 1), (KeyString ''b'', VInt 2)])])
          (VStruct [(exported ''Env'', VMap [(KeyString ''a'', VInt 0), (KeyString ''c'', VInt 3)])])
          True
        = Returned (VStruct [(exported ''Env'', base')], merged, None)"
proof -
  have h: "\<not> ShallowMerge (engine False False)"
          "Kind (VMap [(KeyString ''a'', VInt 1), (KeyString ''b'', VInt 2)]) = RMap"
          "Kind (VMap [(KeyString ''a'', VInt 0), (KeyString ''c'', VInt 3)]) = RMap"
    by (simp_all add: engine_def)
  from map_merge_tombstone [OF h, of True] obtain base' merged where
    r: "mergeIntoInherited (engine False False) False
        (VMap [(KeyString ''a'', VInt 1), (KeyString ''b'', VInt 2)])
        (VMap [(KeyString ''a'', VInt 0), (KeyString ''c'', VInt 3)]) True
       = Returned (base', merged, None)"
    and ix: "\<forall>k. MapIndex base' k =
                 (case MapIndex (VMap [(KeyString ''a'', VInt 0), (KeyString ''c'', VInt 3)]) k of
                    None \<Rightarrow> MapIndex (VMap [(KeyString ''a'', VInt 1), (KeyString ''b'', VInt 2)]) k
                  | Some v \<Rightarrow> if isEmpty (engine False False) False v = Returned True then None else Some v)"
    and s: "mergeIntoInherited (engine False False) False
          (VStruct [(exported ''Env'', VMap [(KeyString ''a'', VInt 1), (KeyString ''b'', VInt 2)])])
          (VStruct [(exported ''Env'', VMap [(KeyString ''a'', VInt 0), (KeyString ''c'', VInt 3)])])
          True
        = Returned (VStruct [(exported ''Env'', base')], merged, None)"
    by blast
  have "MapIndex base' (KeyString ''a'') = None"
       "MapIndex base' (KeyString ''b'') = Some (VInt 2)"
       "MapIndex base' (KeyString ''c'') = Some (VInt 3)"
    by (simp_all add: ix isEmpty_def engine_def)
  with r s show ?thesis by blast
qed

text \<open>
  C10.  In a deep merge of a map-valued field, \<^verbatim>\<open>merged\<close> is true exactly when some key
  of the override holds a value that is not empty.  With tracking on, the companion flag
  of the field receives the negation of \<^verbatim>\<open>merged\<close>: an override of tombstones alone
  leaves the flag true although keys were removed.
\<close>

theorem tombstones_do_not_override:
  assumes "\<not> ShallowMerge n" and "Kind base = RMap" and "Kind pool = RMap"
  shows "\<exists>base' merged.
           mergeIntoInherited n False base pool True = Returned (base', merged, None)
         \<and> (merged \<longleftrightarrow> (\<exists>k v. MapIndex pool k = Some v \<and> isEmpty n False v = Returned False))
         \<and> mergeIntoInherited n False
              (VStruct [(exported ''Env'', base), (exported ''EnvInherited'', VBool flag)])
              (VStruct [(exported ''Env'', pool), (exported ''EnvInherited'', VBool flag')]) True
            = Returned (VStruct [(exported ''Env'', base'),
                                 (exported ''EnvInherited'', VBool (\<not> merged))], merged, None)"
proof -
  from mergeMap_result [OF assms(2,3), of n] obtain base' where
    r: "mergeMap n False base pool
            = Returned (base', (\<exists>k v. MapIndex pool k = Some v \<and> isEmpty n False v = Returned False), None)"
    by blast
  let ?m = "\<exists>k v. MapIndex pool k = Some v \<and> isEmpty n False v = Returned False"
  have field: "mergeIntoInherited n False base pool True = Returned (base', ?m, None)"
    using r by (simp add: mergeIntoInherited_map [OF assms(2)])
  have "mergeIntoInherited n False
              (VStruct [(exported ''Env'', base), (exported ''EnvInherited'', VBool flag)])
              (VStruct [(exported ''Env'', pool), (exported ''EnvInherited'', VBool flag')]) True
            = Returned (VStruct [(exported ''Env'', base'),
                                 (exported ''EnvInherited'', VBool (\<not> ?m))], ?m, None)"
    using assms(1) field
    by (simp add: mergeIntoInherited_struct mergeFields.simps mergeField.simps
          setFieldValue_def exported_def isInheritedName_def inheritedField_def
          setInheritedFlag_def FieldByNameFunc_def search_levels.simps scan_matches_def
          scan_embedded_def HasSuffix_def ToLower_def lower_char_def)
  with field show ?thesis by blast
qed

theorem tombstones_do_not_override_witness:
  "\<exists>base' merged.
     mergeIntoInherited (engine False False) False
        (VMap [(KeyString ''a'', VInt 1), (KeyString ''b'', VInt 2)])
        (VMap [(KeyString ''a'', VInt 0)]) True = Returned (base', merged, None)
   \<and> base' = VMap [(KeyString ''b'', VInt 2)] \<and> \<not> merged
   \<and> mergeIntoInherited (engine False False) False
        (VStruct [(exported ''Env'', VMap [(KeyString ''a'', VInt 1), (KeyString ''b'', VInt 2)]),
                  (exported ''EnvInherited'', VBool False)])
        (VStruct [(exported ''Env'', VMap [(KeyString ''a'', VInt 0)]),
                  (exported ''EnvInherited'', VBool False)]) True
      = Returned (VStruct [(exported ''Env'', base'),
                           (exported ''EnvInherited'', VBool True)], False, None)"
proof -
  have h: "\<not> ShallowMerge (engine False False)"
          "Kind (VMap [(KeyString ''a'', VInt 1), (KeyString ''b'', VInt 2)]) = RMap"
          "Kind (VMap [(KeyString ''a'', VInt 0)]) = RMap"
    by (simp_all add: engine_def)
  from tombstones_do_not_override [OF h, of False False] obtain base' merged where
    a: "mergeIntoInherited (engine False False) False
        (VMap [(KeyString ''a'', VInt 1), (KeyString ''b'', VInt 2)])
        (VMap [(KeyString ''a'', VInt 0)]) True = Returned (base', merged, None)"
    and s: "mergeIntoInherited (engine False False) False
        (VStruct [(exported ''Env'', VMap [(KeyString ''a'', VInt 1), (KeyString ''b'', VInt 2)]),
                  (exported ''EnvInherited'', VBool False)])
        (VStruct [(exported ''Env'', VMap [(KeyString ''a'', VInt 0)]),
                  (exported ''EnvInherited'', VBool False)]) True
      = Returned (VStruct [(exported ''Env'', base'),
                           (exported ''EnvInherited'', VBool (\<not> merged))], merged, None)"
    by blast
  from a have "base' = VMap [(KeyString ''b'', VInt 2)]" and "\<not> merged"
    by (simp_all add: eval_simps)
  then show ?thesis
    using a s by (intro exI [of _ base'] exI [of _ merged]) simp
qed


section \<open>Shallow and deep mode (claim C6)\<close>

text \<open>Lines 297-306: the fields the loop passes over.\<close>

definition skipped :: "StructField \<Rightarrow> bool" where
  "skipped fieldType =
     (isInheritedName fieldType \<or> (PkgPath fieldType \<noteq> [] \<and> \<not> Anonymous fieldType))"

lemma Kind_Zero: "Kind (Zero v) = Kind v"
  by (cases v) auto

lemma same_type_Kind: "Zero x = Zero v \<Longrightarrow> Kind x = Kind v"
  by (metis Kind_Zero)

lemma SetValue_same_type: "Zero x = Zero v \<Longrightarrow> SetValue False v x = Returned x"
  by (auto simp: SetValue_def dest: same_type_Kind)

lemma isEmpty_False_iff: "isEmpty n False v = Returned False \<longleftrightarrow> \<not> policy_empty (AllowEmpty n) v"
  by (simp add: isEmpty_policy)

lemma isEmpty_True_iff: "isEmpty n False v = Returned True \<longleftrightarrow> policy_empty (AllowEmpty n) v"
  by (simp add: isEmpty_policy)

lemma mergeField_skipped:
  "skipped (fst (t ! i)) \<Longrightarrow> mergeField n t i cur pool si = Returned (cur, False, None)"
  by (auto simp: mergeField.simps skipped_def)

lemma mergeField_shallow:
  assumes "ShallowMerge n" and "i < length cur" and "i < length ps"
    and "\<not> skipped (fst (t ! i))" and "PkgPath (fst (t ! i)) = []"
    and "Zero (snd (ps ! i)) = Zero (snd (cur ! i))"
  shows "mergeField n t i cur (VStruct ps) si =
           (if isEmpty n False (snd (ps ! i)) = Returned False
            then Returned (setFieldValue cur i (snd (ps ! i)), True, None)
            else Returned (cur, False, None))"
  using assms
  by (auto simp: mergeField.simps skipped_def isEmpty_policy SetValue_same_type)

lemma mergeFields_shallow:
  assumes "ShallowMerge n"
    and "length cur = length t" and "length ps = length t"
    and "\<forall>j. i \<le> j \<and> j < length t \<and> \<not> skipped (fst (t ! j)) \<longrightarrow>
           PkgPath (fst (t ! j)) = [] \<and> Zero (snd (ps ! j)) = Zero (snd (cur ! j))"
  shows "\<exists>rs. mergeFields n t i cur (VStruct ps) si m
           = Returned (VStruct rs,
               m \<or> (\<exists>j. i \<le> j \<and> j < length t \<and> \<not> skipped (fst (t ! j))
                        \<and> isEmpty n False (snd (ps ! j)) = Returned False), None)
         \<and> length rs = length t
         \<and> (\<forall>j<length t. rs ! j =
               (if i \<le> j \<and> \<not> skipped (fst (t ! j)) \<and> isEmpty n False (snd (ps ! j)) = Returned False
                then (fst (cur ! j), snd (ps ! j)) else cur ! j))"
  using assms(2,4)
proof (induction "length t - i" arbitrary: i cur m)
  case 0
  then have "\<not> i < length t" by simp
  then show ?case
    using "0.prems" by (auto simp: mergeFields.simps)
next
  case (Suc k)
  then have i: "i < length t" by simp
  let ?emp = "\<lambda>j. isEmpty n False (snd (ps ! j)) = Returned False"
  let ?take = "\<not> skipped (fst (t ! i)) \<and> ?emp i"
  let ?cur1 = "if ?take then setFieldValue cur i (snd (ps ! i)) else cur"
  have step: "mergeField n t i cur (VStruct ps) si = Returned (?cur1, ?take, None)"
  proof (cases "skipped (fst (t ! i))")
    case True
    then show ?thesis by (simp add: mergeField_skipped)
  next
    case False
    then show ?thesis
      using Suc.prems i assms(1,3) by (simp add: mergeField_shallow)
  qed
  have len1: "length ?cur1 = length t"
    using Suc.prems(1) by (simp add: setFieldValue_def)
  have k: "k = length t - Suc i" using Suc.hyps(2) by simp
  have hyp1: "\<forall>j. Suc i \<le> j \<and> j < length t \<and> \<not> skipped (fst (t ! j)) \<longrightarrow>
           PkgPath (fst (t ! j)) = [] \<and> Zero (snd (ps ! j)) = Zero (snd (?cur1 ! j))"
    using Suc.prems(2) by (auto simp: setFieldValue_def)
  from Suc.hyps(1) [OF k len1 hyp1, of "m \<or> ?take"] obtain rs where
    r: "mergeFields n t (Suc i) ?cur1 (VStruct ps) si (m \<or> ?take)
           = Returned (VStruct rs,
               (m \<or> ?take) \<or> (\<exists>j. Suc i \<le> j \<and> j < length t \<and> \<not> skipped (fst (t ! j)) \<and> ?emp j), None)"
    and lr: "length rs = length t"
    and ix: "\<forall>j<length t. rs ! j =
               (if Suc i \<le> j \<and> \<not> skipped (fst (t ! j)) \<and> ?emp j
                then (fst (?cur1 ! j), snd (ps ! j)) else ?cur1 ! j)"
    by blast
  have flag: "((m \<or> ?take) \<or> (\<exists>j. Suc i \<le> j \<and> j < length t \<and> \<not> skipped (fst (t ! j)) \<and> ?emp j))
              = (m \<or> (\<exists>j. i \<le> j \<and> j < length t \<and> \<not> skipped (fst (t ! j)) \<and> ?emp j))"
    using i by (metis Suc_leD Suc_leI le_neq_implies_less order_refl)
  have run: "mergeFields n t i cur (VStruct ps) si m
           = Returned (VStruct rs,
               m \<or> (\<exists>j. i \<le> j \<and> j < length t \<and> \<not> skipped (fst (t ! j)) \<and> ?emp j), None)"
    using i step r flag by (subst mergeFields.simps) simp
  have "\<forall>j<length t. rs ! j =
               (if i \<le> j \<and> \<not> skipped (fst (t ! j)) \<and> ?emp j
                then (fst (cur ! j), snd (ps ! j)) else cur ! j)"
  proof (intro allI impI)
    fix j assume j: "j < length t"
    consider "j < i" | "j = i" | "i < j" by linarith
    then show "rs ! j = (if i \<le> j \<and> \<not> skipped (fst (t ! j)) \<and> ?emp j
                then (fst (cur ! j), snd (ps ! j)) else cur ! j)"
    proof cases
      case 1
      then show ?thesis using ix j Suc.prems(1) by (auto simp: setFieldValue_def)
    next
      case 2
      then show ?thesis using ix j Suc.prems(1) by (auto simp: setFieldValue_def)
    next
      case 3
      then show ?thesis using ix j Suc.prems(1) by (auto simp: setFieldValue_def)
    qed
  qed
  with run lr show ?case by blast
qed

lemma same_record_type:
  assumes "Zero (VStruct ps) = Zero (VStruct bs)"
  shows "length ps = length bs"
    and "j < length bs \<Longrightarrow> Zero (snd (ps ! j)) = Zero (snd (bs ! j))"
    and "j < length bs \<Longrightarrow> fst (ps ! j) = fst (bs ! j)"
proof -
  from assms have eq: "map (\<lambda>(f, v). (f, Zero v)) ps = map (\<lambda>(f, v). (f, Zero v)) bs"
    by simp
  then show len: "length ps = length bs"
    by (rule map_eq_imp_length_eq)
  {
    assume j: "j < length bs"
    from eq have "map (\<lambda>(f, v). (f, Zero v)) ps ! j = map (\<lambda>(f, v). (f, Zero v)) bs ! j"
      by simp
    then have "(\<lambda>(f, v). (f, Zero v)) (ps ! j) = (\<lambda>(f, v). (f, Zero v)) (bs ! j)"
      using j len by simp
    then have "Zero (snd (ps ! j)) = Zero (snd (bs ! j)) \<and> fst (ps ! j) = fst (bs ! j)"
      by (auto simp: case_prod_beta)
  }
  then show "j < length bs \<Longrightarrow> Zero (snd (ps ! j)) = Zero (snd (bs ! j))"
    and "j < length bs \<Longrightarrow> fst (ps ! j) = fst (bs ! j)"
    by blast+
qed

text \<open>
  C6.  In shallow mode, for a base and an override of the same record type (no
  unexported embedded field), the merge returns without error and every field of the
  result is the override's field, whole, if that field is not passed over and is not
  empty as a unit, and the base's field, whole, otherwise.  On \<open>Sub = {X: 1, Y: 2}\<close>
  and \<open>Sub = {X: 0, Y: 3}\<close> shallow mode gives \<open>{X: 0, Y: 3}\<close> and deep mode, which
  recurses, gives \<open>{X: 1, Y: 3}\<close>.
\<close>

theorem shallow_replaces_whole_field:
  assumes "ShallowMerge n"
    and "Zero (VStruct ps) = Zero (VStruct bs)"
    and "\<forall>(f, v) \<in> set bs. Anonymous f \<longrightarrow> PkgPath f = []"
  shows "(\<exists>rs merged.
            mergeIntoInherited n False (VStruct bs) (VStruct ps) si = Returned (VStruct rs, merged, None)
          \<and> length rs = length bs
          \<and> (\<forall>i<length bs. rs ! i =
                (fst (bs ! i),
                 if \<not> skipped (fst (bs ! i)) \<and> isEmpty n False (snd (ps ! i)) = Returned False
                 then snd (ps ! i) else snd (bs ! i))))
       \<and> mergeIntoInherited (engine False True) False
            (VStruct [(exported ''Sub'', VStruct [(exported ''X'', VInt 1), (exported ''Y'', VInt 2)])])
            (VStruct [(exported ''Sub'', VStruct [(exported ''X'', VInt 0), (exported ''Y'', VInt 3)])]) si
          = Returned (VStruct [(exported ''Sub'',
                        VStruct [(exported ''X'', VInt 0), (exported ''Y'', VInt 3)])], True, None)
       \<and> mergeIntoInherited (engine False False) False
            (VStruct [(exported ''Sub'', VStruct [(exported ''X'', VInt 1), (exported ''Y'', VInt 2)])])
            (VStruct [(exported ''Sub'', VStruct [(exported ''X'', VInt 0), (exported ''Y'', VInt 3)])]) si
          = Returned (VStruct [(exported ''Sub'',
                        VStruct [(exported ''X'', VInt 1), (exported ''Y'', VInt 3)])], True, None)"
proof -
  have len: "length ps = length bs"
    using assms(2) by (rule same_record_type)
  have hyp: "\<forall>j. 0 \<le> j \<and> j < length bs \<and> \<not> skipped (fst (bs ! j)) \<longrightarrow>
           PkgPath (fst (bs ! j)) = [] \<and> Zero (snd (ps ! j)) = Zero (snd (bs ! j))"
  proof (intro allI impI)
    fix j assume j: "0 \<le> j \<and> j < length bs \<and> \<not> skipped (fst (bs ! j))"
    then have "bs ! j \<in> set bs" by simp
    with assms(3) have "Anonymous (fst (bs ! j)) \<longrightarrow> PkgPath (fst (bs ! j)) = []"
      by (auto simp: case_prod_beta)
    with j have "PkgPath (fst (bs ! j)) = []"
      by (auto simp: skipped_def)
    moreover have "Zero (snd (ps ! j)) = Zero (snd (bs ! j))"
      using j same_record_type(2) [OF assms(2)] by blast
    ultimately show "PkgPath (fst (bs ! j)) = [] \<and> Zero (snd (ps ! j)) = Zero (snd (bs ! j))"
      by simp
  qed
  from mergeFields_shallow [OF assms(1) refl len hyp, of si False] obtain rs where
    "mergeFields n bs 0 bs (VStruct ps) si False
       = Returned (VStruct rs,
               False \<or> (\<exists>j. 0 \<le> j \<and> j < length bs \<and> \<not> skipped (fst (bs ! j))
                        \<and> isEmpty n False (snd (ps ! j)) = Returned False), None)"
    "length rs = length bs"
    "\<forall>j<length bs. rs ! j =
               (if 0 \<le> j \<and> \<not> skipped (fst (bs ! j)) \<and> isEmpty n False (snd (ps ! j)) = Returned False
                then (fst (bs ! j), snd (ps ! j)) else bs ! j)"
    by blast
  then have general: "\<exists>rs merged.
            mergeIntoInherited n False (VStruct bs) (VStruct ps) si = Returned (VStruct rs, merged, None)
          \<and> length rs = length bs
          \<and> (\<forall>i<length bs. rs ! i =
                (fst (bs ! i),
                 if \<not> skipped (fst (bs ! i)) \<and> isEmpty n False (snd (ps ! i)) = Returned False
                 then snd (ps ! i) else snd (bs ! i)))"
    by (auto simp: mergeIntoInherited_struct intro!: exI [of _ rs])
  show ?thesis
    by (rule conjI [OF general]) (simp add: eval_simps)
qed

theorem shallow_replaces_whole_field_witness:
  "\<exists>rs merged.
     mergeIntoInherited (engine False True) False
       (VStruct [(exported ''Sub'', VStruct [(exported ''X'', VInt 1), (exported ''Y'', VInt 2)]),
                 (exported ''Name'', VString ''base'')])
       (VStruct [(exported ''Sub'', VStruct [(exported ''X'', VInt 0), (exported ''Y'', VInt 3)]),
                 (exported ''Name'', VString [])]) True
       = Returned (VStruct rs, merged, None)
     \<and> rs ! 0 = (exported ''Sub'', VStruct [(exported ''X'', VInt 0), (exported ''Y'', VInt 3)])
     \<and> rs ! 1 = (exported ''Name'', VString ''base'')"
proof -
  let ?bs = "[(exported ''Sub'', VStruct [(exported ''X'', VInt 1), (exported ''Y'', VInt 2)]),
              (exported ''Name'', VString ''base'')]"
  let ?ps = "[(exported ''Sub'', VStruct [(exported ''X'', VInt 0), (exported ''Y'', VInt 3)]),
              (exported ''Name'', VString [])]"
  have h: "ShallowMerge (engine False True)"
          "Zero (VStruct ?ps) = Zero (VStruct ?bs)"
          "\<forall>(f, v) \<in> set ?bs. Anonymous f \<longrightarrow> PkgPath f = []"
    by (simp_all add: engine_def exported_def)
  from shallow_replaces_whole_field [OF h, of True] obtain rs merged where
    r: "mergeIntoInherited (engine False True) False (VStruct ?bs) (VStruct ?ps) True
          = Returned (VStruct rs, merged, None)"
    and ix: "\<forall>i<length ?bs. rs ! i =
                (fst (?bs ! i),
                 if \<not> skipped (fst (?bs ! i))
                    \<and> isEmpty (engine False True) False (snd (?ps ! i)) = Returned False
                 then snd (?ps ! i) else snd (?bs ! i))"
    by blast
  from ix have "rs ! 0 = (exported ''Sub'', VStruct [(exported ''X'', VInt 0), (exported ''Y'', VInt 3)])"
    by (simp add: skipped_def isInheritedName_def HasSuffix_def ToLower_def lower_char_def
          exported_def isEmpty_def engine_def)
  moreover from ix have "rs ! 1 = (exported ''Name'', VString ''base'')"
    by (simp add: skipped_def isInheritedName_def HasSuffix_def ToLower_def lower_char_def
          exported_def isEmpty_def engine_def)
  ultimately show ?thesis using r by blast
qed


section \<open>The companion flag (claim C3)\<close>
























section \<open>An override of empty fields (claim C2)\<close>













section \<open>Failure of an assignment (claim C7)\<close>








section \<open>The store and the engine's operations\<close>

text \<open>
  Modelled from the spec: the Persistent Scope Store of section 6 and the serialization
  of a record; the collection type of tsuru's \<^verbatim>\<open>db/storage\<close> package and the \<^verbatim>\<open>mgo\<close>
  driver behind it are not among the sources.  A collection holds at most one document
  per id; the value of a document maps field paths, which are the lower-cased field
  names, to values.  Serialization is taken as lossless on the exported fields of a
  record (unexported fields are not stored and read back as zero), and
  \<^verbatim>\<open>findByID\<close>, \<^verbatim>\<open>upsertByID\<close>, \<^verbatim>\<open>conditionalUpsert\<close>, \<^verbatim>\<open>updateFieldByID\<close>, \<^verbatim>\<open>unsetFieldByID\<close> and
  \<^verbatim>\<open>removeByID\<close> answer as section 6 lists them: an update or a removal of a missing id is
  \<open>ErrNotFound\<close>, and a conditional upsert whose id exists while its condition fails is
  the duplicate-key error \<open>ErrDup\<close>.
\<close>

type_synonym document = "(string \<times> gval) list"

type_synonym collection = "(string \<times> document) list"

datatype error =
    ValidationError string
  | ErrNotFound
  | ErrDup
  | ConnError string
  | MergeError merge_error

record store =
  connErr :: "string option"
  entries :: collection

datatype cond = FieldIs string gval | FieldExists string bool | AnyOf "cond list"

fun holds :: "cond \<Rightarrow> document \<Rightarrow> bool" where
  "holds (FieldIs path v) d = (map_of d path = Some v)"
| "holds (FieldExists path b) d = ((map_of d path \<noteq> None) = b)"
| "holds (AnyOf cs) d = list_ex (\<lambda>c. holds c d) cs"

datatype update = SetPath string gval | UnsetPath string | Replace document

fun apply_update :: "update \<Rightarrow> document \<Rightarrow> document" where
  "apply_update (SetPath path v) d = AList.update path v d"
| "apply_update (UnsetPath path) d = AList.delete path d"
| "apply_update (Replace d') d = d'"

definition FindId :: "collection \<Rightarrow> string \<Rightarrow> error + document" where
  "FindId c key = (case map_of c key of None \<Rightarrow> Inl ErrNotFound | Some d \<Rightarrow> Inr d)"

definition Upsert :: "collection \<Rightarrow> string \<Rightarrow> cond list \<Rightarrow> update \<Rightarrow> error + collection" where
  "Upsert c key conds u =
     (case map_of c key of
        None \<Rightarrow> Inr (AList.update key (apply_update u []) c)
      | Some d \<Rightarrow>
          if list_all (\<lambda>cnd. holds cnd d) conds then Inr (AList.update key (apply_update u d) c)
          else Inl ErrDup)"

definition UpdateId :: "collection \<Rightarrow> string \<Rightarrow> update \<Rightarrow> error + collection" where
  "UpdateId c key u =
     (case map_of c key of
        None \<Rightarrow> Inl ErrNotFound
      | Some d \<Rightarrow> Inr (AList.update key (apply_update u d) c))"

definition RemoveId :: "collection \<Rightarrow> string \<Rightarrow> error + collection" where
  "RemoveId c key =
     (case map_of c key of None \<Rightarrow> Inl ErrNotFound | Some d \<Rightarrow> Inr (AList.delete key c))"

definition Marshal :: "gval \<Rightarrow> document" where
  "Marshal val =
     (case val of
        VStruct fs \<Rightarrow> map (\<lambda>(f, v). (ToLower (Name f), v)) (filter (\<lambda>(f, v). PkgPath f = []) fs)
      | _ \<Rightarrow> [])"

definition Unmarshal :: "document \<Rightarrow> gval \<Rightarrow> gval" where
  "Unmarshal d out =
     (case out of
        VStruct fs \<Rightarrow>
          VStruct (map (\<lambda>(f, old).
                     (f, if PkgPath f = []
                         then (case map_of d (ToLower (Name f)) of
                                 Some v \<Rightarrow> if Zero v = Zero old then v else Zero old
                               | None \<Rightarrow> Zero old)
                         else Zero old)) fs)
      | _ \<Rightarrow> out)"

text \<open>Lines 377-383: \<^verbatim>\<open>collection\<close>; the connection to the database may fail.\<close>

definition collection :: "NScopedConfig \<Rightarrow> store \<Rightarrow> error + collection" where
  "collection n st =
     (case connErr st of Some msg \<Rightarrow> Inl (ConnError msg) | None \<Rightarrow> Inr (entries st))"

text \<open>Lines 36-54.\<close>

definition SetFieldAtomic ::
  "NScopedConfig \<Rightarrow> store \<Rightarrow> string \<Rightarrow> string \<Rightarrow> gval \<Rightarrow> (bool \<times> error option) \<times> store" where
  "SetFieldAtomic n st pool name val =
     (case collection n st of
        Inl err \<Rightarrow> ((False, Some err), st)
      | Inr c \<Rightarrow>
          (case Upsert c pool
                  [AnyOf [FieldIs (ToLower name) (VString []), FieldExists (ToLower name) False]]
                  (SetPath (ToLower name) val) of
             Inr c' \<Rightarrow> ((True, None), st\<lparr>entries := c'\<rparr>)
           | Inl err \<Rightarrow> if err = ErrDup then ((False, None), st) else ((False, Some err), st)))"

text \<open>Lines 56-65.\<close>

definition SetField ::
  "NScopedConfig \<Rightarrow> store \<Rightarrow> string \<Rightarrow> string \<Rightarrow> gval \<Rightarrow> error option \<times> store" where
  "SetField n st pool name val =
     (case collection n st of
        Inl err \<Rightarrow> (Some err, st)
      | Inr c \<Rightarrow>
          (case Upsert c pool [] (SetPath (ToLower name) val) of
             Inr c' \<Rightarrow> (None, st\<lparr>entries := c'\<rparr>)
           | Inl err \<Rightarrow> (Some err, st)))"

text \<open>Lines 71-82.\<close>

definition Save :: "NScopedConfig \<Rightarrow> store \<Rightarrow> string \<Rightarrow> gval \<Rightarrow> error option \<times> store" where
  "Save n st pool val =
     (if Kind val \<noteq> RStruct then (Some (ValidationError ''a struct type is required as value''), st)
      else (case collection n st of
              Inl err \<Rightarrow> (Some err, st)
            | Inr c \<Rightarrow>
                (case Upsert c pool [] (Replace (Marshal val)) of
                   Inr c' \<Rightarrow> (None, st\<lparr>entries := c'\<rparr>)
                 | Inl err \<Rightarrow> (Some err, st))))"

text \<open>Lines 84-110: the merge of \<^verbatim>\<open>SaveMerge\<close> runs with tracking off.\<close>

definition SaveMerge :: "NScopedConfig \<Rightarrow> store \<Rightarrow> string \<Rightarrow> gval \<Rightarrow> (error option \<times> store) go" where
  "SaveMerge n st pool val =
     (if Kind val \<noteq> RStruct
      then Returned (Some (ValidationError ''received object must be a struct''), st)
      else (case collection n st of
              Inl err \<Rightarrow> Returned (Some err, st)
            | Inr c \<Rightarrow>
                (case mergeIntoInherited n False
                        (case FindId c pool of
                           Inr d \<Rightarrow> Unmarshal d (Zero val)
                         | Inl notFound \<Rightarrow> Zero val)
                        val False of
                   Panicked p \<Rightarrow> Panicked p
                 | Returned (previousValue, merged, err) \<Rightarrow>
                     (case err of
                        Some e \<Rightarrow> Returned (Some (MergeError e), st)
                      | None \<Rightarrow> Returned (Save n st pool previousValue)))))"



text \<open>Lines 258-265.\<close>

definition Remove :: "NScopedConfig \<Rightarrow> store \<Rightarrow> string \<Rightarrow> error option \<times> store" where
  "Remove n st pool =
     (case collection n st of
        Inl err \<Rightarrow> (Some err, st)
      | Inr c \<Rightarrow>
          (case RemoveId c pool of
             Inl err \<Rightarrow> (Some err, st)
           | Inr c' \<Rightarrow> (None, st\<lparr>entries := c'\<rparr>)))"

text \<open>Lines 267-279.\<close>

definition RemoveField :: "NScopedConfig \<Rightarrow> store \<Rightarrow> string \<Rightarrow> string \<Rightarrow> error option \<times> store" where
  "RemoveField n st pool name =
     (case collection n st of
        Inl err \<Rightarrow> (Some err, st)
      | Inr c \<Rightarrow>
          (case UpdateId c pool (UnsetPath (ToLower name)) of
             Inl err \<Rightarrow> if err \<noteq> ErrNotFound then (Some err, st) else (None, st)
           | Inr c' \<Rightarrow> (None, st\<lparr>entries := c'\<rparr>)))"

text \<open>
  \<^verbatim>\<open>SaveMerge\<close> on a scope without an entry stores what the merge without tracking makes
  of the zero record and the value.
\<close>

lemma SaveMerge_untracked:
  assumes "Kind val = RStruct" and "connErr st = None" and "map_of (entries st) pool = None"
    and "mergeIntoInherited n False (Zero val) val False = Returned (r, merged, None)"
  shows "SaveMerge n st pool val = Returned (Save n st pool r)"
  using assms by (simp add: SaveMerge_def collection_def FindId_def)

definition memory :: "collection \<Rightarrow> store" where
  "memory c = \<lparr>connErr = None, entries = c\<rparr>"

section \<open>Conditional set and removal (claims C8 and C9)\<close>

text \<open>The field of the given name at a scope, as the store holds it, and the document there.\<close>

definition field_at :: "store \<Rightarrow> string \<Rightarrow> string \<Rightarrow> gval option" where
  "field_at st pool name =
     (case map_of (entries st) pool of None \<Rightarrow> None | Some d \<Rightarrow> map_of d (ToLower name))"

definition document_at :: "store \<Rightarrow> string \<Rightarrow> document" where
  "document_at st pool = (case map_of (entries st) pool of None \<Rightarrow> [] | Some d \<Rightarrow> d)"

text \<open>
  C8.  With a working connection, \<^verbatim>\<open>SetFieldAtomic\<close> sets the field, and answers true
  without error, exactly when the field is absent at the scope (also when the scope has
  no entry) or holds the empty string; afterwards the field holds the value and no other
  scope has changed.  Otherwise it answers false without error and the store is as it
  was.  The effect is that of the single \<^verbatim>\<open>Upsert\<close> of its definition.
\<close>

theorem SetFieldAtomic_sets_free_field:
  assumes "connErr st = None"
  shows "SetFieldAtomic n st pool name val =
           (if field_at st pool name = None \<or> field_at st pool name = Some (VString [])
            then ((True, None),
                  st\<lparr>entries := AList.update pool
                                   (AList.update (ToLower name) val (document_at st pool))
                                   (entries st)\<rparr>)
            else ((False, None), st))
       \<and> field_at (st\<lparr>entries := AList.update pool
                                   (AList.update (ToLower name) val (document_at st pool))
                                   (entries st)\<rparr>) pool name = Some val
       \<and> (\<forall>other. other \<noteq> pool \<longrightarrow>
             map_of (AList.update pool (AList.update (ToLower name) val (document_at st pool))
                       (entries st)) other = map_of (entries st) other)"
proof (intro conjI)
  show "SetFieldAtomic n st pool name val =
           (if field_at st pool name = None \<or> field_at st pool name = Some (VString [])
            then ((True, None),
                  st\<lparr>entries := AList.update pool
                                   (AList.update (ToLower name) val (document_at st pool))
                                   (entries st)\<rparr>)
            else ((False, None), st))"
    using assms
    by (cases "map_of (entries st) pool")
       (auto simp: SetFieldAtomic_def collection_def Upsert_def field_at_def document_at_def)
  show "field_at (st\<lparr>entries := AList.update pool
                                   (AList.update (ToLower name) val (document_at st pool))
                                   (entries st)\<rparr>) pool name = Some val"
    by (simp add: field_at_def update_conv')
  show "\<forall>other. other \<noteq> pool \<longrightarrow>
             map_of (AList.update pool (AList.update (ToLower name) val (document_at st pool))
                       (entries st)) other = map_of (entries st) other"
    by (simp add: update_conv')
qed

theorem SetFieldAtomic_sets_free_field_witness:
  "SetFieldAtomic (engine False False) (memory []) ''P'' ''Leader'' (VString ''a'')
     = ((True, None), memory [(''P'', [(''leader'', VString ''a'')])])
   \<and> SetFieldAtomic (engine False False) (memory [(''P'', [(''leader'', VString [])])])
        ''P'' ''Leader'' (VString ''b'')
     = ((True, None), memory [(''P'', [(''leader'', VString ''b'')])])
   \<and> SetFieldAtomic (engine False False) (memory [(''P'', [(''leader'', VString ''a'')])])
        ''P'' ''Leader'' (VString ''b'')
     = ((False, None), memory [(''P'', [(''leader'', VString ''a'')])])"
proof -
  have c: "connErr (memory c) = None" for c
    by (simp add: memory_def)
  have l: "ToLower ''Leader'' = ''leader''"
    by (simp add: ToLower_def lower_char_def)
  from SetFieldAtomic_sets_free_field [OF c, of "engine False False" "[]" "''P''" "''Leader''" "VString ''a''"]
  have 1: "SetFieldAtomic (engine False False) (memory []) ''P'' ''Leader'' (VString ''a'')
     = ((True, None), memory [(''P'', [(''leader'', VString ''a'')])])"
    by (simp add: field_at_def document_at_def memory_def l)
  from SetFieldAtomic_sets_free_field [OF c, of "engine False False" "[(''P'', [(''leader'', VString [])])]"
      "''P''" "''Leader''" "VString ''b''"]
  have 2: "SetFieldAtomic (engine False False) (memory [(''P'', [(''leader'', VString [])])])
        ''P'' ''Leader'' (VString ''b'')
     = ((True, None), memory [(''P'', [(''leader'', VString ''b'')])])"
    by (simp add: field_at_def document_at_def memory_def l)
  from SetFieldAtomic_sets_free_field [OF c, of "engine False False" "[(''P'', [(''leader'', VString ''a'')])]"
      "''P''" "''Leader''" "VString ''b''"]
  have 3: "SetFieldAtomic (engine False False) (memory [(''P'', [(''leader'', VString ''a'')])])
        ''P'' ''Leader'' (VString ''b'')
     = ((False, None), memory [(''P'', [(''leader'', VString ''a'')])])"
    by (simp add: field_at_def document_at_def memory_def l)
  from 1 2 3 show ?thesis by simp
qed

text \<open>
  C9.  With a working connection: on a scope without an entry \<^verbatim>\<open>Remove\<close> returns the
  store's not-found error and \<^verbatim>\<open>RemoveField\<close> returns no error, the store unchanged in
  both cases; on a scope with an entry \<^verbatim>\<open>Remove\<close> deletes the entry and \<^verbatim>\<open>RemoveField\<close>
  returns no error and removes the one path from the entry's document, whether the path
  was there or not.
\<close>

theorem Remove_and_RemoveField:
  assumes "connErr st = None"
  shows "(map_of (entries st) pool = None \<longrightarrow>
            Remove n st pool = (Some ErrNotFound, st) \<and> RemoveField n st pool name = (None, st))
       \<and> (\<forall>d. map_of (entries st) pool = Some d \<longrightarrow>
            Remove n st pool = (None, st\<lparr>entries := AList.delete pool (entries st)\<rparr>)
          \<and> map_of (AList.delete pool (entries st)) pool = None
          \<and> RemoveField n st pool name
              = (None, st\<lparr>entries := AList.update pool (AList.delete (ToLower name) d) (entries st)\<rparr>)
          \<and> (\<forall>path. map_of (AList.delete (ToLower name) d) path
                       = (if path = ToLower name then None else map_of d path)))"
  using assms
  by (auto simp: Remove_def RemoveField_def collection_def RemoveId_def UpdateId_def
        delete_conv')

theorem Remove_and_RemoveField_witness:
  "Remove (engine False False) (memory []) ''P'' = (Some ErrNotFound, memory [])
   \<and> RemoveField (engine False False) (memory []) ''P'' ''Leader'' = (None, memory [])
   \<and> RemoveField (engine False False) (memory [(''P'', [(''other'', VInt 1)])]) ''P'' ''Leader''
       = (None, memory [(''P'', [(''other'', VInt 1)])])
   \<and> RemoveField (engine False False)
        (memory [(''P'', [(''leader'', VString ''a''), (''other'', VInt 1)])]) ''P'' ''Leader''
       = (None, memory [(''P'', [(''other'', VInt 1)])])
   \<and> Remove (engine False False)
        (memory [(''P'', [(''leader'', VString ''a''), (''other'', VInt 1)])]) ''P''
       = (None, memory [])"
proof -
  have c: "connErr (memory c) = None" for c
    by (simp add: memory_def)
  have l: "ToLower ''Leader'' = ''leader''"
    by (simp add: ToLower_def lower_char_def)
  note a = Remove_and_RemoveField [OF c, of "[]" "''P''" "engine False False" "''Leader''"]
  note b = Remove_and_RemoveField [OF c, of "[(''P'', [(''other'', VInt 1)])]" "''P''"
      "engine False False" "''Leader''"]
  note d = Remove_and_RemoveField [OF c, of "[(''P'', [(''leader'', VString ''a''), (''other'', VInt 1)])]"
      "''P''" "engine False False" "''Leader''"]
  from a have 1: "Remove (engine False False) (memory []) ''P'' = (Some ErrNotFound, memory [])"
    and 2: "RemoveField (engine False False) (memory []) ''P'' ''Leader'' = (None, memory [])"
    by (simp_all add: memory_def)
  from b have 3: "RemoveField (engine False False) (memory [(''P'', [(''other'', VInt 1)])]) ''P'' ''Leader''
       = (None, memory [(''P'', [(''other'', VInt 1)])])"
    by (simp add: memory_def l)
  from d have 4: "RemoveField (engine False False)
        (memory [(''P'', [(''leader'', VString ''a''), (''other'', VInt 1)])]) ''P'' ''Leader''
       = (None, memory [(''P'', [(''other'', VInt 1)])])"
    and 5: "Remove (engine False False)
        (memory [(''P'', [(''leader'', VString ''a''), (''other'', VInt 1)])]) ''P''
       = (None, memory [])"
    by (simp_all add: memory_def l)
  from 1 2 3 4 5 show ?thesis by simp
qed


section \<open>Save, then Load (claim C5)\<close>




















end
